theory Spec2Isabelle
  imports
    Main
    "HOL-Library.Multiset"
    "HOL-Library.Char_ord"
    "HOL-Library.List_Lexorder"
    "HOL-Library.Product_Lexorder"
begin

section \<open>sgCheckup: the security-group risk report (internal/report/report.go)\<close>

text \<open>
  The report package reads security-group facts from a database, classifies each one,
  sorts the rows and attaches metadata. The model follows report.go function by
  function. Go strings are byte strings (\<open>string\<close>), Go \<open>int\<close> is \<open>int\<close>, a slice is
  a list, an \<open>error\<close> return is the left summand of a sum, and a run-time panic (an index
  out of range) is an outcome of its own.
\<close>

subsection \<open>Errors, panics and outcomes\<close>

datatype error =
    ParseError string          \<comment> \<open>multirange: malformed port-range text\<close>
  | External string            \<comment> \<open>an error handed back by the database or the embedded files\<close>
  | New string                 \<comment> \<open>\<open>errors.New(msg)\<close>\<close>
  | Wrap error string          \<comment> \<open>\<open>errors.Wrap(err, msg)\<close> and \<open>errors.Wrapf\<close>\<close>

datatype panic = IndexOutOfRange nat nat   \<comment> \<open>index, length\<close>

datatype 'a outcome = Returns 'a | Fails error | Panics panic

text \<open>Indexing a slice: Go panics when the index is not below the length.\<close>

definition index :: "'a list \<Rightarrow> nat \<Rightarrow> panic + 'a" where
  "index xs i = (if i < length xs then Inr (xs ! i) else Inl (IndexOutOfRange i (length xs)))"

subsection \<open>Standard-library helpers\<close>

text \<open>
  \<open>strings.Split(s, sep)\<close> for a one-byte separator: the pieces between the
  separators, always at least one piece.
\<close>

fun split :: "char \<Rightarrow> string \<Rightarrow> string list" where
  "split sep [] = [[]]"
| "split sep (c # cs) =
     (if c = sep then [] # split sep cs
      else (case split sep cs of
              piece # pieces \<Rightarrow> (c # piece) # pieces
            | [] \<Rightarrow> [[c]]))"

text \<open>\<open>strings.HasPrefix\<close>.\<close>

definition hasPrefix :: "string \<Rightarrow> string \<Rightarrow> bool" where
  "hasPrefix s p = (take (length p) s = p)"

text \<open>\<open>strings.Join\<close>.\<close>

fun join :: "string list \<Rightarrow> string \<Rightarrow> string" where
  "join [] sep = []"
| "join [x] sep = x"
| "join (x # y # ys) sep = x @ sep @ join (y # ys) sep"

text \<open>Decimal rendering of an integer, as \<open>%v\<close> prints it.\<close>

definition digitChar :: "nat \<Rightarrow> char" where
  "digitChar d = char_of (48 + d)"

fun showNat :: "nat \<Rightarrow> string" where
  "showNat n = (if n < 10 then [digitChar n] else showNat (n div 10) @ [digitChar (n mod 10)])"

declare showNat.simps [simp del]

definition showInt :: "int \<Rightarrow> string" where
  "showInt i = (if i < 0 then CHR ''-'' # showNat (nat (- i)) else showNat (nat i))"

text \<open>\<open>%v\<close> of a string slice: the elements separated by spaces, in brackets.\<close>

definition showStrings :: "string list \<Rightarrow> string" where
  "showStrings xs = ''['' @ join xs '' '' @ '']''"

subsection \<open>MultiRange (internal/multirange)\<close>

text \<open>
  A port range is an inclusive pair (start, end); a MultiRange is the sequence of its
  ranges, kept sorted, disjoint and non-touching.
\<close>

type_synonym PortRange = "int \<times> int"
type_synonym MultiRange = "PortRange list"

text \<open>
  Modelled from the spec: the insertion of a range into a MultiRange, which
  internal/multirange performs inside \<open>FromString\<close>. Section 4.1: ranges are inserted in
  canonical form, sorted, merged if adjacent or overlapping.
\<close>

fun addRange :: "PortRange \<Rightarrow> MultiRange \<Rightarrow> MultiRange" where
  "addRange (s, e) [] = [(s, e)]"
| "addRange (s, e) ((s', e') # rs) =
     (if e + 1 < s' then (s, e) # (s', e') # rs
      else if e' + 1 < s then (s', e') # addRange (s, e) rs
      else addRange (min s s', max e e') rs)"

definition isDigit :: "char \<Rightarrow> bool" where
  "isDigit c = (48 \<le> (of_char c :: nat) \<and> (of_char c :: nat) \<le> 57)"

text \<open>
  Modelled from the spec: the reading of one integer of a token (internal/multirange).
  A non-empty run of decimal digits.
\<close>

definition parseInt :: "string \<Rightarrow> int option" where
  "parseInt s =
     (if s = [] \<or> \<not> list_all isDigit s then None
      else Some (foldl (\<lambda>a c. 10 * a + (int (of_char c) - 48)) 0 s))"

text \<open>
  Modelled from the spec: the parsing of one token (internal/multirange). Section 4.1: a
  token is a single integer \<open>N\<close> or a range \<open>N-M\<close>; any other shape, or \<open>N > M\<close>, is a
  parse error.
\<close>

definition parseToken :: "string \<Rightarrow> PortRange option" where
  "parseToken tok =
     (case split CHR ''-'' tok of
        [n] \<Rightarrow> (case parseInt n of None \<Rightarrow> None | Some v \<Rightarrow> Some (v, v))
      | [n, m] \<Rightarrow>
          (case parseInt n of
             None \<Rightarrow> None
           | Some v \<Rightarrow>
               (case parseInt m of
                  None \<Rightarrow> None
                | Some w \<Rightarrow> if v > w then None else Some (v, w)))
      | _ \<Rightarrow> None)"

fun parseTokens :: "string \<Rightarrow> string list \<Rightarrow> MultiRange \<Rightarrow> error + MultiRange" where
  "parseTokens text [] mr = Inr mr"
| "parseTokens text (tok # toks) mr =
     (case parseToken tok of
        None \<Rightarrow> Inl (ParseError text)
      | Some r \<Rightarrow> parseTokens text toks (addRange r mr))"

text \<open>
  Modelled from the spec: \<open>multirange.FromString\<close> (internal/multirange is not among the
  sources). Section 4.1: parses a comma-separated list of tokens; fails with a parse
  error on a malformed token; the result is canonical whatever the order of the text.
\<close>

definition FromString :: "string \<Rightarrow> error + MultiRange" where
  "FromString text = parseTokens text (split CHR '','' text) []"

text \<open>
  Modelled from the spec: \<open>MultiRange.RemoveElement\<close> (internal/multirange). Section 4.1:
  a range holding \<open>n\<close> splits into \<open>[start, n-1]\<close> and \<open>[n+1, end]\<close>, either half
  dropped when empty; a range not holding \<open>n\<close> is kept.
\<close>

fun RemoveElement :: "int \<Rightarrow> MultiRange \<Rightarrow> MultiRange" where
  "RemoveElement n [] = []"
| "RemoveElement n ((s, e) # rs) =
     (if s \<le> n \<and> n \<le> e
      then (if s \<le> n - 1 then [(s, n - 1)] else [])
           @ (if n + 1 \<le> e then [(n + 1, e)] else [])
           @ RemoveElement n rs
      else (s, e) # RemoveElement n rs)"

text \<open>
  Modelled from the spec: \<open>MultiRange.Size\<close> (internal/multirange). Section 4.1: the sum
  over the ranges of \<open>end - start + 1\<close>, 0 for the empty set.
\<close>

fun Size :: "MultiRange \<Rightarrow> int" where
  "Size [] = 0"
| "Size ((s, e) # rs) = (e - s + 1) + Size rs"

text \<open>
  Modelled from the spec: \<open>MultiRange.Humanize\<close> (internal/multirange). Section 4.1: a
  singleton range is one number, a longer one \<open>start-end\<close>, the tokens joined by a
  comma and a space.
\<close>

definition humanizeRange :: "PortRange \<Rightarrow> string" where
  "humanizeRange r =
     (if fst r = snd r then showInt (fst r) else showInt (fst r) @ ''-'' @ showInt (snd r))"

definition Humanize :: "MultiRange \<Rightarrow> string" where
  "Humanize mr = join (map humanizeRange mr) '', ''"

text \<open>The integers a MultiRange covers.\<close>

definition members :: "MultiRange \<Rightarrow> int set" where
  "members mr = (\<Union>(s, e) \<in> set mr. {s..e})"

subsection \<open>Security-group facts and the classifier\<close>

record securityGroupRow =
  arn :: string
  groupName :: string
  ips :: "string list"
  inUse :: bool
  isDefault :: bool
  portRanges :: "string list"
  isLargePublicBlock :: bool
  largeRangeCount :: bool
  isRestricted :: bool
  internalOnly :: bool

definition isProblematic :: "securityGroupRow \<Rightarrow> bool" where
  "isProblematic r =
     (if largeRangeCount r then True
      else if isLargePublicBlock r then True
      else False)"

text \<open>
  \<open>unsafePorts\<close>: the first port-range text is parsed and every safe port removed, in
  the order of the list; without a port-range text the result is the empty MultiRange.
\<close>

definition unsafePorts :: "securityGroupRow \<Rightarrow> int list \<Rightarrow> error + MultiRange" where
  "unsafePorts r safePorts =
     (if length (portRanges r) > 0
      then (case FromString (portRanges r ! 0) of
              Inl err \<Rightarrow>
                Inl (Wrap err (''Failed to parse port range '' @ showStrings (portRanges r)))
            | Inr mr \<Rightarrow> Inr (foldl (\<lambda>m port. RemoveElement port m) mr safePorts))
      else Inr [])"

text \<open>
  The method \<open>notes\<close> (named \<open>notes_of\<close> here, \<open>notes\<close> being reserved): the slice
  starts empty and each test appends to it in turn.
\<close>

definition notes_of :: "securityGroupRow \<Rightarrow> MultiRange \<Rightarrow> string list" where
  "notes_of r unsafe =
     (let ns = [];
          ns = (if Size unsafe > 0 \<and> \<not> internalOnly r
                then ns @ [''Allows traffic from anywhere on TCP ports ('' @ Humanize unsafe @ '')'']
                else ns);
          ns = (if isLargePublicBlock r
                then ns @ [''Has IP restrictions, but they let through large ranges'']
                else ns);
          ns = (if largeRangeCount r then ns @ [''Uses a lot of IP Ranges''] else ns);
          ns = (if \<not> inUse r then ns @ [''Not in use''] else ns);
          ns = (if length (ips r) > 0
                then ns @ [''Contains '' @ showNat (length (ips r)) @ '' public IP address(es)'']
                else ns @ [''No public IP addresses found''])
      in ns)"

record Row =
  Arn :: string
  Name :: string
  Status :: string
  PublicIps :: "string list"
  InUse :: bool
  IsDefault :: bool
  Notes :: "string list"

text \<open>The status assigned in the body of the loop of \<open>analyzeSecurityGroupResults\<close>.\<close>

definition rowStatus :: "securityGroupRow \<Rightarrow> MultiRange \<Rightarrow> string" where
  "rowStatus row unsafe =
     (if isDefault row then
        (if inUse row then
           (if isRestricted row \<or> internalOnly row \<or> length (ips row) = 0
            then ''yellow'' else ''red'')
         else
           (if isRestricted row then ''green'' else ''yellow''))
      else
        (if inUse row then
           (if isRestricted row \<or> (\<not> isProblematic row \<and> Size unsafe = 0) then ''green''
            else if length (ips row) = 0 then ''yellow''
            else ''red'')
         else ''yellow''))"

text \<open>
  \<open>analyzeSecurityGroupResults\<close>: the loop over the facts, with the rows built so far;
  the first fact whose ports do not parse ends it with an error.
\<close>

fun analyzeLoop :: "securityGroupRow list \<Rightarrow> int list \<Rightarrow> Row list \<Rightarrow> error + Row list" where
  "analyzeLoop [] safePorts reportRows = Inr reportRows"
| "analyzeLoop (row # results) safePorts reportRows =
     (case unsafePorts row safePorts of
        Inl err \<Rightarrow> Inl (Wrap err ''Failed to calculate unsafe ports'')
      | Inr unsafe \<Rightarrow>
          analyzeLoop results safePorts
            (reportRows @
               [\<lparr>Arn = arn row, Name = groupName row, Status = rowStatus row unsafe,
                 PublicIps = ips row, InUse = inUse row, IsDefault = isDefault row,
                 Notes = notes_of row unsafe\<rparr>]))"

definition analyzeSecurityGroupResults ::
    "securityGroupRow list \<Rightarrow> int list \<Rightarrow> error + Row list" where
  "analyzeSecurityGroupResults results safePorts = analyzeLoop results safePorts []"

subsection \<open>Ordering the rows\<close>

text \<open>
  \<open>statusIndex\<close> is a Go map; a lookup of a key that is not in it yields 0, the zero
  value of \<open>int\<close>.
\<close>

definition statusIndex :: "string \<rightharpoonup> int" where
  "statusIndex = [''red'' \<mapsto> 0, ''yellow'' \<mapsto> 1, ''green'' \<mapsto> 2]"

definition statusRank :: "string \<Rightarrow> int" where
  "statusRank s = (case statusIndex s of None \<Rightarrow> 0 | Some i \<Rightarrow> i)"

definition arnRegion :: "string \<Rightarrow> panic + string" where
  "arnRegion a = (let parts = split CHR '':'' a in index parts 3)"

text \<open>
  \<open>sortRowsLess\<close>: the regions are read only when the statuses are equal, first the one
  of \<open>a\<close>, then the one of \<open>b\<close>; either read can panic.
\<close>

definition sortRowsLess :: "Row \<Rightarrow> Row \<Rightarrow> panic + bool" where
  "sortRowsLess a b =
     (if Status a = Status b then
        (case arnRegion (Arn a) of
           Inl p \<Rightarrow> Inl p
         | Inr aRegion \<Rightarrow>
             (case arnRegion (Arn b) of
                Inl p \<Rightarrow> Inl p
              | Inr bRegion \<Rightarrow>
                  if aRegion = bRegion then Inr (Name a < Name b)
                  else Inr (aRegion < bRegion)))
      else Inr (statusRank (Status a) < statusRank (Status b)))"

text \<open>
  \<open>sort.SliceStable\<close> is the standard library's. It is modelled by the insertion sort
  the library runs on a slice of up to 20 elements: each element in turn is swapped
  towards the front while the comparison (\<open>lt\<close>, Go's \<open>less\<close>) holds between it
  and its left neighbour. (A longer slice is sorted in blocks of 20 that are then merged
  by SymMerge, to the same order when the comparison is a strict weak order.) The sorted
  front is kept in reverse, its last element first. A panic of the comparison ends the
  sort.
\<close>

fun insertLeft :: "('a \<Rightarrow> 'a \<Rightarrow> panic + bool) \<Rightarrow> 'a \<Rightarrow> 'a list \<Rightarrow> panic + 'a list" where
  "insertLeft lt x [] = Inr [x]"
| "insertLeft lt x (y # front) =
     (case lt x y of
        Inl p \<Rightarrow> Inl p
      | Inr True \<Rightarrow>
          (case insertLeft lt x front of Inl p \<Rightarrow> Inl p | Inr zs \<Rightarrow> Inr (y # zs))
      | Inr False \<Rightarrow> Inr (x # y # front))"

fun insertionSort :: "('a \<Rightarrow> 'a \<Rightarrow> panic + bool) \<Rightarrow> 'a list \<Rightarrow> 'a list \<Rightarrow> panic + 'a list" where
  "insertionSort lt front [] = Inr (rev front)"
| "insertionSort lt front (x # xs) =
     (case insertLeft lt x front of
        Inl p \<Rightarrow> Inl p
      | Inr front' \<Rightarrow> insertionSort lt front' xs)"

definition SliceStable :: "('a \<Rightarrow> 'a \<Rightarrow> panic + bool) \<Rightarrow> 'a list \<Rightarrow> panic + 'a list" where
  "SliceStable lt xs = insertionSort lt [] xs"

subsection \<open>The database and Generate\<close>

text \<open>
  What the outside world answers during one run of \<open>Generate\<close>: the results of opening
  and pinging the connection, the embedded query files (opening a file can fail, and so
  can reading it), the result of executing a statement, the result sets of the two
  queries (the query can fail, and so can the scan of any of its rows), and the clock.
\<close>

type_synonym time = nat

record database =
  openResult :: "error option"
  pingResult :: "error option"
  files :: "string \<Rightarrow> error + (error + string)"
  execResult :: "string \<Rightarrow> error option"
  securityGroupQuery :: "string \<Rightarrow> error + (error + securityGroupRow) list"
  importQuery :: "string \<Rightarrow> error + (error + time \<times> string) list"
  now :: time

record Metadata =
  Imported :: time
  Generated :: time
  Account :: string
  Organization :: string

record Report =
  Metadata :: Metadata
  Rows :: "Row list"

definition loadQuery :: "database \<Rightarrow> string \<Rightarrow> error + string" where
  "loadQuery db name =
     (let filename = ''/queries/'' @ name @ ''.sql'' in
      case files db filename of
        Inl err \<Rightarrow> Inl (Wrap err (''Failed to open '' @ filename))
      | Inr f \<Rightarrow>
          (case f of
             Inl err \<Rightarrow> Inl (Wrap err (''Failed to read '' @ filename))
           | Inr bytes \<Rightarrow> Inr bytes))"

definition installDbFunctions :: "database \<Rightarrow> error option" where
  "installDbFunctions db =
     (case loadQuery db ''rfc1918'' of
        Inl err \<Rightarrow> Some (New ''Failed to load sql for is_rfc1918block'')
      | Inr isRFC1918 \<Rightarrow>
          (case execResult db isRFC1918 of
             Some err \<Rightarrow> Some err
           | None \<Rightarrow> None))"

fun scanRows :: "(error + securityGroupRow) list \<Rightarrow> securityGroupRow list \<Rightarrow>
    error + securityGroupRow list" where
  "scanRows [] results = Inr results"
| "scanRows (r # rows) results =
     (case r of
        Inl err \<Rightarrow> Inl (Wrap err ''Failed to unmarshal a row'')
      | Inr row \<Rightarrow> scanRows rows (results @ [row]))"

definition runSecurityGroupQuery :: "database \<Rightarrow> error + securityGroupRow list" where
  "runSecurityGroupQuery db =
     (case loadQuery db ''security_groups'' of
        Inl err \<Rightarrow> Inl (Wrap err ''Failed to to load analysis query'')
      | Inr analysisQuery \<Rightarrow>
          (case securityGroupQuery db analysisQuery of
             Inl err \<Rightarrow> Inl (Wrap err ''DB error analyzing'')
           | Inr rows \<Rightarrow> scanRows rows []))"

definition loadMetadata :: "database \<Rightarrow> Row list \<Rightarrow> Metadata outcome" where
  "loadMetadata db reportRows =
     (case loadQuery db ''most_recent_import'' of
        Inl err \<Rightarrow> Fails (Wrap err ''failed to load query'')
      | Inr query \<Rightarrow>
          (case importQuery db query of
             Inl err \<Rightarrow> Fails (Wrap err ''Failed to query for most recent import'')
           | Inr [] \<Rightarrow> Fails (New ''Query for most recent import job found no results'')
           | Inr (Inl err # _) \<Rightarrow> Fails (Wrap err ''Failed to read most recent import job row'')
           | Inr (Inr (endDate, organization) # _) \<Rightarrow>
               (case index reportRows 0 of
                  Inl p \<Rightarrow> Panics p
                | Inr row0 \<Rightarrow>
                    (let parts = split CHR '':'' (Arn row0) in
                     case index parts 4 of
                       Inl p \<Rightarrow> Panics p
                     | Inr accountID \<Rightarrow>
                         Returns \<lparr>Imported = endDate, Generated = now db, Account = accountID,
                           Organization =
                             (if hasPrefix organization ''OrgDummy'' then ''<NONE>''
                              else organization)\<rparr>))))"

definition defaultSafePorts :: "int list" where
  "defaultSafePorts = [22, 80, 443]"

text \<open>
  \<open>Generate\<close>. The safe ports are a slice that may be \<open>nil\<close> (\<open>None\<close>); an empty slice
  that is not \<open>nil\<close> is \<open>Some []\<close>.
\<close>

definition Generate :: "database \<Rightarrow> int list option \<Rightarrow> Report outcome" where
  "Generate db safePorts =
     (case openResult db of
        Some err \<Rightarrow> Fails (Wrap err ''Failed to connect to db'')
      | None \<Rightarrow>
     (case pingResult db of
        Some err \<Rightarrow> Fails (Wrap err ''Failed to ping db'')
      | None \<Rightarrow>
     (case installDbFunctions db of
        Some err \<Rightarrow> Fails (Wrap err ''Failed to install fixture functions'')
      | None \<Rightarrow>
     (case runSecurityGroupQuery db of
        Inl err \<Rightarrow> Fails (Wrap err ''Failed to run analysis query'')
      | Inr rows \<Rightarrow>
     (let safePorts' = (case safePorts of None \<Rightarrow> defaultSafePorts | Some ps \<Rightarrow> ps) in
      case analyzeSecurityGroupResults rows safePorts' of
        Inl err \<Rightarrow> Fails (Wrap err ''Failed to generate report from query results'')
      | Inr reportRows \<Rightarrow>
     (case SliceStable sortRowsLess reportRows of
        Inl p \<Rightarrow> Panics p
      | Inr sortedRows \<Rightarrow>
     (case loadMetadata db sortedRows of
        Fails err \<Rightarrow> Fails (Wrap err ''Failed to load metadata'')
      | Panics p \<Rightarrow> Panics p
      | Returns metadata \<Rightarrow> Returns \<lparr>Metadata = metadata, Rows = sortedRows\<rparr>)))))))"

subsection \<open>The specification's wording\<close>

text \<open>
  Section 4.2, step 2: a fact is problematic iff \<open>largeRangeCount\<close> is true or
  \<open>isLargePublicBlock\<close> is true.
\<close>

definition problematic :: "securityGroupRow \<Rightarrow> bool" where
  "problematic f \<longleftrightarrow> largeRangeCount f \<or> isLargePublicBlock f"

text \<open>Section 4.2, step 3: the decision table, row by row in its stated order.\<close>

definition tableStatus :: "securityGroupRow \<Rightarrow> MultiRange \<Rightarrow> string" where
  "tableStatus f unsafe =
     (if isDefault f \<and> inUse f \<and> (isRestricted f \<or> internalOnly f \<or> ips f = []) then ''yellow''
      else if isDefault f \<and> inUse f then ''red''
      else if isDefault f \<and> \<not> inUse f \<and> isRestricted f then ''green''
      else if isDefault f \<and> \<not> inUse f then ''yellow''
      else if \<not> isDefault f \<and> inUse f \<and>
              (isRestricted f \<or> (\<not> problematic f \<and> Size unsafe = 0)) then ''green''
      else if \<not> isDefault f \<and> inUse f \<and> ips f = [] then ''yellow''
      else if \<not> isDefault f \<and> inUse f then ''red''
      else ''yellow'')"

text \<open>Section 4.2, step 4: the five notes, each present under its predicate, in order.\<close>

definition unsafeNote :: "MultiRange \<Rightarrow> string" where
  "unsafeNote unsafe = ''Allows traffic from anywhere on TCP ports ('' @ Humanize unsafe @ '')''"

definition tableNotes :: "securityGroupRow \<Rightarrow> MultiRange \<Rightarrow> string list" where
  "tableNotes f unsafe =
     (if Size unsafe > 0 \<and> \<not> internalOnly f then [unsafeNote unsafe] else [])
     @ (if isLargePublicBlock f
        then [''Has IP restrictions, but they let through large ranges''] else [])
     @ (if largeRangeCount f then [''Uses a lot of IP Ranges''] else [])
     @ (if \<not> inUse f then [''Not in use''] else [])
     @ [if ips f \<noteq> []
        then ''Contains '' @ showNat (length (ips f)) @ '' public IP address(es)''
        else ''No public IP addresses found'']"

text \<open>
  Section 4.3, step 4: the composite sort key, compared lexicographically: the severity
  rank, then the region (field 3 of the ARN), then the name. An ARN of fewer fields has
  no region; the sort returns only when no comparison has read the region of such a row.
\<close>

definition arnFields :: "string \<Rightarrow> string list" where
  "arnFields a = split CHR '':'' a"

definition sortKey :: "Row \<Rightarrow> int \<times> string \<times> string" where
  "sortKey r = (statusRank (Status r), arnFields (Arn r) ! 3, Name r)"

text \<open>Every range of a MultiRange has its start at or below its end.\<close>

definition wellFormed :: "MultiRange \<Rightarrow> bool" where
  "wellFormed mr = list_all (\<lambda>(s, e). s \<le> e) mr"

text \<open>
  A row the sort can compare with any other: its status is one of the three and its ARN
  has a region, that is at least four fields.
\<close>

definition sortable :: "Row \<Rightarrow> bool" where
  "sortable r \<longleftrightarrow>
     Status r \<in> {''red'', ''yellow'', ''green''} \<and> 4 \<le> length (arnFields (Arn r))"

text \<open>The row the loop of \<open>analyzeSecurityGroupResults\<close> appends for a fact.\<close>

definition rowOf :: "securityGroupRow \<Rightarrow> MultiRange \<Rightarrow> Row" where
  "rowOf f unsafe =
     \<lparr>Arn = arn f, Name = groupName f, Status = rowStatus f unsafe, PublicIps = ips f,
      InUse = inUse f, IsDefault = isDefault f, Notes = notes_of f unsafe\<rparr>"

text \<open>The safe ports \<open>Generate\<close> works with.\<close>

definition effectiveSafePorts :: "int list option \<Rightarrow> int list" where
  "effectiveSafePorts safePorts = (case safePorts of None \<Rightarrow> defaultSafePorts | Some ps \<Rightarrow> ps)"

subsection \<open>Example inputs\<close>

definition sgWeb :: securityGroupRow where
  "sgWeb = \<lparr>arn = ''arn:aws:ec2:us-west-2:42:sg/1'', groupName = ''web'', ips = [''1.2.3.4''],
     inUse = True, isDefault = False, portRanges = [''20-25''], isLargePublicBlock = True,
     largeRangeCount = False, isRestricted = False, internalOnly = False\<rparr>"

definition sgIdle :: securityGroupRow where
  "sgIdle = \<lparr>arn = ''arn:aws:ec2:us-east-1:42:sg/2'', groupName = ''idle'', ips = [],
     inUse = False, isDefault = False, portRanges = [], isLargePublicBlock = False,
     largeRangeCount = False, isRestricted = False, internalOnly = False\<rparr>"

definition sgDb :: securityGroupRow where
  "sgDb = \<lparr>arn = ''arn:aws:ec2:us-east-1:42:sg/3'', groupName = ''db'', ips = [''5.6.7.8''],
     inUse = True, isDefault = True, portRanges = [], isLargePublicBlock = False,
     largeRangeCount = False, isRestricted = False, internalOnly = False\<rparr>"

definition sgMalformed :: securityGroupRow where
  "sgMalformed = \<lparr>arn = ''arn:aws:ec2:us-east-1:42:sg/4'', groupName = ''odd'', ips = [],
     inUse = True, isDefault = False, portRanges = [''5-2''], isLargePublicBlock = False,
     largeRangeCount = False, isRestricted = False, internalOnly = False\<rparr>"

definition sgShortArn :: securityGroupRow where
  "sgShortArn = \<lparr>arn = ''sg-5'', groupName = ''short'', ips = [],
     inUse = False, isDefault = False, portRanges = [], isLargePublicBlock = False,
     largeRangeCount = False, isRestricted = False, internalOnly = False\<rparr>"

text \<open>A database that answers every call, holds the given facts and one import record.\<close>

definition demoDb :: "securityGroupRow list \<Rightarrow> database" where
  "demoDb facts =
     \<lparr>openResult = None, pingResult = None, files = (\<lambda>name. Inr (Inr name)),
      execResult = (\<lambda>q. None), securityGroupQuery = (\<lambda>q. Inr (map Inr facts)),
      importQuery = (\<lambda>q. Inr [Inr (5, ''OrgDummy-1'')]), now = 7\<rparr>"

section \<open>Properties\<close>

subsection \<open>MultiRange: ranges stay well formed, removal removes\<close>

lemma addRange_wellFormed:
  "s \<le> e \<Longrightarrow> wellFormed mr \<Longrightarrow> wellFormed (addRange (s, e) mr)"
proof (induction "(s, e)" mr arbitrary: s e rule: addRange.induct)
  case (1 s e)
  then show ?case by (simp add: wellFormed_def)
next
  case (2 s e s' e' rs)
  have rest: "wellFormed rs" and head: "s' \<le> e'"
    using "2.prems"(2) by (simp_all add: wellFormed_def)
  show ?case
  proof (cases "e + 1 < s'")
    case True
    then show ?thesis using "2.prems" by (simp add: wellFormed_def)
  next
    case far: False
    show ?thesis
    proof (cases "e' + 1 < s")
      case True
      then show ?thesis
        using far head "2.hyps"(1) [OF far True "2.prems"(1) rest]
        by (simp add: wellFormed_def)
    next
      case False
      have "min s s' \<le> max e e'" using "2.prems"(1) by simp
      then show ?thesis
        using far False "2.hyps"(2) [OF far False _ rest] by simp
    qed
  qed
qed

lemma parseToken_ordered: "parseToken tok = Some (s, e) \<Longrightarrow> s \<le> e"
  by (auto simp: parseToken_def split: list.splits option.splits if_splits)

lemma parseTokens_wellFormed:
  "wellFormed mr \<Longrightarrow> parseTokens text toks mr = Inr mr' \<Longrightarrow> wellFormed mr'"
proof (induction toks arbitrary: mr)
  case Nil
  then show ?case by simp
next
  case (Cons tok toks)
  from Cons.prems(2) obtain r where r: "parseToken tok = Some r"
    and rest: "parseTokens text toks (addRange r mr) = Inr mr'"
    by (auto split: option.splits)
  obtain s e where se: "r = (s, e)" by (cases r)
  have "wellFormed (addRange r mr)"
    using parseToken_ordered r se addRange_wellFormed Cons.prems(1) by blast
  then show ?case using Cons.IH rest by blast
qed

lemma FromString_wellFormed: "FromString text = Inr mr \<Longrightarrow> wellFormed mr"
  unfolding FromString_def
  by (rule parseTokens_wellFormed [of "[]"]) (simp_all add: wellFormed_def)

lemma RemoveElement_wellFormed: "wellFormed mr \<Longrightarrow> wellFormed (RemoveElement n mr)"
  by (induction n mr rule: RemoveElement.induct) (auto simp: wellFormed_def)

lemma members_RemoveElement: "members (RemoveElement n mr) = members mr - {n}"
  by (induction n mr rule: RemoveElement.induct) (auto simp: members_def)

lemma removeAll_wellFormed:
  "wellFormed mr \<Longrightarrow> wellFormed (foldl (\<lambda>m port. RemoveElement port m) mr ps)"
  by (induction ps arbitrary: mr) (simp_all add: RemoveElement_wellFormed)

lemma members_removeAll:
  "members (foldl (\<lambda>m port. RemoveElement port m) mr ps) = members mr - set ps"
  by (induction ps arbitrary: mr) (auto simp: members_RemoveElement)

lemma Size_nonneg: "wellFormed mr \<Longrightarrow> 0 \<le> Size mr"
  by (induction mr rule: Size.induct) (auto simp: wellFormed_def)

lemma Size_zero_iff: "wellFormed mr \<Longrightarrow> Size mr = 0 \<longleftrightarrow> members mr = {}"
proof (cases mr)
  case Nil
  then show ?thesis by (simp add: members_def)
next
  case (Cons r rs)
  assume wf: "wellFormed mr"
  obtain s e where se: "r = (s, e)" by (cases r)
  have "s \<le> e" and "wellFormed rs" using wf Cons se by (simp_all add: wellFormed_def)
  then have "0 < Size mr" and "s \<in> members mr"
    using Size_nonneg [of rs] Cons se by (auto simp: members_def)
  then show ?thesis by auto
qed

lemma unsafePorts_wellFormed: "unsafePorts f ps = Inr u \<Longrightarrow> wellFormed u"
  using removeAll_wellFormed [OF FromString_wellFormed]
  by (auto simp: unsafePorts_def split: if_splits sum.splits) (simp add: wellFormed_def)

subsection \<open>The classifier\<close>

lemma isProblematic_iff: "isProblematic f = problematic f"
  by (simp add: isProblematic_def problematic_def)

lemma rowStatus_table: "rowStatus f u = tableStatus f u"
  by (simp add: rowStatus_def tableStatus_def isProblematic_iff)

lemma rowStatus_cases: "rowStatus f u \<in> {''red'', ''yellow'', ''green''}"
  by (simp add: rowStatus_def)

lemma notes_of_table: "notes_of f u = tableNotes f u"
  by (simp add: notes_of_def tableNotes_def unsafeNote_def)

lemma analyzeLoop_rows:
  "analyzeLoop facts ps acc = Inr rows \<Longrightarrow>
   \<exists>new. rows = acc @ new \<and>
     list_all2 (\<lambda>f r. \<exists>u. unsafePorts f ps = Inr u \<and> r = rowOf f u) facts new"
proof (induction facts arbitrary: acc)
  case Nil
  then show ?case by simp
next
  case (Cons f facts)
  from Cons.prems obtain u where u: "unsafePorts f ps = Inr u"
    and rest: "analyzeLoop facts ps (acc @ [rowOf f u]) = Inr rows"
    by (auto simp: rowOf_def split: sum.splits)
  from Cons.IH [OF rest] obtain new where
    "rows = (acc @ [rowOf f u]) @ new"
    "list_all2 (\<lambda>f r. \<exists>u. unsafePorts f ps = Inr u \<and> r = rowOf f u) facts new"
    by blast
  then show ?case using u by (intro exI [of _ "rowOf f u # new"]) simp
qed

lemma analyze_rows:
  "analyzeSecurityGroupResults facts ps = Inr rows \<Longrightarrow>
   list_all2 (\<lambda>f r. \<exists>u. unsafePorts f ps = Inr u \<and> r = rowOf f u) facts rows"
  unfolding analyzeSecurityGroupResults_def by (drule analyzeLoop_rows) simp

lemma analyze_nth:
  assumes "analyzeSecurityGroupResults facts ps = Inr rows" and "i < length facts"
  shows "length rows = length facts"
    and "\<exists>u. unsafePorts (facts ! i) ps = Inr u \<and> rows ! i = rowOf (facts ! i) u"
proof -
  note rel = analyze_rows [OF assms(1)]
  show "length rows = length facts" using rel by (simp add: list_all2_lengthD)
  show "\<exists>u. unsafePorts (facts ! i) ps = Inr u \<and> rows ! i = rowOf (facts ! i) u"
    using list_all2_nthD [OF rel assms(2)] .
qed

lemma analyze_length:
  "analyzeSecurityGroupResults facts ps = Inr rows \<Longrightarrow> length rows = length facts"
  using analyze_rows by (fastforce dest: list_all2_lengthD)

lemma example_rows:
  "analyzeSecurityGroupResults [sgWeb, sgIdle] [22] =
     Inr [rowOf sgWeb [(20, 21), (23, 25)], rowOf sgIdle []]"
  by code_simp

subsection \<open>The insertion sort\<close>

lemma insertLeft_mset:
  "insertLeft lt x front = Inr zs \<Longrightarrow> mset zs = add_mset x (mset front)"
  by (induction front arbitrary: zs) (auto split: sum.splits bool.splits)

lemma insertLeft_set: "insertLeft lt x front = Inr zs \<Longrightarrow> set zs = insert x (set front)"
  by (drule insertLeft_mset) (metis set_mset_add_mset_insert set_mset_mset)

lemma insertionSort_mset:
  "insertionSort lt front xs = Inr ys \<Longrightarrow> mset ys = mset front + mset xs"
proof (induction xs arbitrary: front)
  case Nil
  then show ?case by auto
next
  case (Cons x xs)
  from Cons.prems obtain front' where
    ins: "insertLeft lt x front = Inr front'" and rest: "insertionSort lt front' xs = Inr ys"
    by (auto split: sum.splits)
  show ?case using Cons.IH [OF rest] insertLeft_mset [OF ins] by simp
qed

lemma SliceStable_mset: "SliceStable lt xs = Inr ys \<Longrightarrow> mset ys = mset xs"
  unfolding SliceStable_def by (drule insertionSort_mset) simp

lemma insertLeft_sorted:
  fixes key :: "'a \<Rightarrow> 'k::linorder"
  assumes ord: "\<And>a b c. a \<in> A \<Longrightarrow> b \<in> A \<Longrightarrow> lt a b = Inr c \<Longrightarrow>
                  (if c then key a \<le> key b else key b \<le> key a)"
    and "x \<in> A" and "set front \<subseteq> A" and "sorted (map key (rev front))"
    and "insertLeft lt x front = Inr zs"
  shows "sorted (map key (rev zs))"
  using assms(3-5)
proof (induction front arbitrary: zs)
  case Nil
  then show ?case by auto
next
  case (Cons y front)
  have yA: "y \<in> A" and frontA: "set front \<subseteq> A" using Cons.prems(1) by auto
  have srt: "sorted (map key (rev front))" and below: "\<forall>z \<in> set front. key z \<le> key y"
    using Cons.prems(2) by (auto simp: sorted_append)
  from Cons.prems(3) obtain c where c: "lt x y = Inr c" by (auto split: sum.splits)
  show ?case
  proof (cases c)
    case True
    with c Cons.prems(3) obtain zs' where
      ins: "insertLeft lt x front = Inr zs'" and zs: "zs = y # zs'"
      by (auto split: sum.splits)
    have "key x \<le> key y" using ord [OF \<open>x \<in> A\<close> yA c] True by simp
    then have "\<forall>z \<in> set zs'. key z \<le> key y"
      using below insertLeft_set [OF ins] by auto
    then show ?thesis
      using Cons.IH [OF frontA srt ins] by (simp add: zs sorted_append)
  next
    case False
    with c Cons.prems(3) have zs: "zs = x # y # front" by simp
    have yx: "key y \<le> key x" using ord [OF \<open>x \<in> A\<close> yA c] False by simp
    have "\<forall>z \<in> set front. key z \<le> key x"
      using below yx order_trans by blast
    then show ?thesis
      using srt below yx by (simp add: zs sorted_append)
  qed
qed

lemma insertLeft_stable:
  assumes strict: "\<And>a b. a \<in> A \<Longrightarrow> b \<in> A \<Longrightarrow> lt a b = Inr True \<Longrightarrow> key a \<noteq> key b"
    and "x \<in> A" and "set front \<subseteq> A" and "insertLeft lt x front = Inr zs"
  shows "filter (\<lambda>r. key r = k) (rev zs) = filter (\<lambda>r. key r = k) (rev front @ [x])"
  using assms(3-4)
proof (induction front arbitrary: zs)
  case Nil
  then show ?case by auto
next
  case (Cons y front)
  have yA: "y \<in> A" and frontA: "set front \<subseteq> A" using Cons.prems(1) by auto
  from Cons.prems(2) obtain c where c: "lt x y = Inr c" by (auto split: sum.splits)
  show ?case
  proof (cases c)
    case True
    with c Cons.prems(2) obtain zs' where
      ins: "insertLeft lt x front = Inr zs'" and zs: "zs = y # zs'"
      by (auto split: sum.splits)
    have "key x \<noteq> key y" using strict [OF \<open>x \<in> A\<close> yA] c True by simp
    then show ?thesis using Cons.IH [OF frontA ins] zs by auto
  next
    case False
    with c Cons.prems(2) have "zs = x # y # front" by simp
    then show ?thesis by simp
  qed
qed

lemma insertLeft_returns:
  assumes total: "\<And>a b. a \<in> A \<Longrightarrow> b \<in> A \<Longrightarrow> \<exists>c. lt a b = Inr c"
    and "x \<in> A" and "set front \<subseteq> A"
  shows "\<exists>zs. insertLeft lt x front = Inr zs"
  using assms(3)
proof (induction front)
  case Nil
  then show ?case by simp
next
  case (Cons y front)
  then obtain zs where "insertLeft lt x front = Inr zs" by auto
  moreover obtain c where "lt x y = Inr c" using total [OF \<open>x \<in> A\<close>, of y] Cons.prems by auto
  ultimately show ?case by (cases c) auto
qed

lemma insertionSort_sorted:
  fixes key :: "'a \<Rightarrow> 'k::linorder"
  assumes ord: "\<And>a b c. a \<in> A \<Longrightarrow> b \<in> A \<Longrightarrow> lt a b = Inr c \<Longrightarrow>
                  (if c then key a \<le> key b else key b \<le> key a)"
    and "set front \<subseteq> A" and "set xs \<subseteq> A" and "sorted (map key (rev front))"
    and "insertionSort lt front xs = Inr ys"
  shows "sorted (map key ys)"
  using assms(2-5)
proof (induction xs arbitrary: front)
  case Nil
  then show ?case by auto
next
  case (Cons x xs)
  from Cons.prems(4) obtain front' where
    ins: "insertLeft lt x front = Inr front'" and rest: "insertionSort lt front' xs = Inr ys"
    by (auto split: sum.splits)
  have xA: "x \<in> A" and xsA: "set xs \<subseteq> A" using Cons.prems(2) by auto
  have front': "set front' \<subseteq> A" using insertLeft_set [OF ins] xA Cons.prems(1) by simp
  have "sorted (map key (rev front'))"
    using insertLeft_sorted [of A lt key, OF ord xA Cons.prems(1) Cons.prems(3) ins] .
  then show ?case using Cons.IH [OF front' xsA _ rest] by simp
qed

lemma insertionSort_stable:
  assumes strict: "\<And>a b. a \<in> A \<Longrightarrow> b \<in> A \<Longrightarrow> lt a b = Inr True \<Longrightarrow> key a \<noteq> key b"
    and "set front \<subseteq> A" and "set xs \<subseteq> A" and "insertionSort lt front xs = Inr ys"
  shows "filter (\<lambda>r. key r = k) ys = filter (\<lambda>r. key r = k) (rev front @ xs)"
  using assms(2-4)
proof (induction xs arbitrary: front)
  case Nil
  then show ?case by auto
next
  case (Cons x xs)
  from Cons.prems(3) obtain front' where
    ins: "insertLeft lt x front = Inr front'" and rest: "insertionSort lt front' xs = Inr ys"
    by (auto split: sum.splits)
  have xA: "x \<in> A" and xsA: "set xs \<subseteq> A" using Cons.prems(2) by auto
  have front': "set front' \<subseteq> A" using insertLeft_set [OF ins] xA Cons.prems(1) by simp
  have step: "filter (\<lambda>r. key r = k) (rev front') = filter (\<lambda>r. key r = k) (rev front @ [x])"
    by (rule insertLeft_stable [of A lt key, OF strict xA Cons.prems(1) ins])
  have "filter (\<lambda>r. key r = k) ys = filter (\<lambda>r. key r = k) (rev front' @ xs)"
    using Cons.IH [OF front' xsA rest] .
  also have "\<dots> = filter (\<lambda>r. key r = k) (rev front @ [x]) @ filter (\<lambda>r. key r = k) xs"
    unfolding filter_append step ..
  also have "\<dots> = filter (\<lambda>r. key r = k) (rev front @ x # xs)"
    by simp
  finally show ?case .
qed

lemma insertionSort_returns:
  assumes total: "\<And>a b. a \<in> A \<Longrightarrow> b \<in> A \<Longrightarrow> \<exists>c. lt a b = Inr c"
    and "set front \<subseteq> A" and "set xs \<subseteq> A"
  shows "\<exists>ys. insertionSort lt front xs = Inr ys"
  using assms(2-3)
proof (induction xs arbitrary: front)
  case Nil
  then show ?case by simp
next
  case (Cons x xs)
  have xA: "x \<in> A" and xsA: "set xs \<subseteq> A" using Cons.prems(2) by auto
  from insertLeft_returns [of A lt, OF total xA Cons.prems(1)] obtain front' where
    ins: "insertLeft lt x front = Inr front'" by blast
  have "set front' \<subseteq> A" using insertLeft_set [OF ins] xA Cons.prems(1) by simp
  from Cons.IH [OF this xsA] show ?case using ins by simp
qed

subsection \<open>The order of the rows\<close>

lemma statusRank_values:
  "statusRank ''red'' = 0" "statusRank ''yellow'' = 1" "statusRank ''green'' = 2"
  by (simp_all add: statusRank_def statusIndex_def)

lemma sortRowsLess_sortKey:
  assumes "sortable a" and "sortable b"
  shows "sortRowsLess a b = Inr (sortKey a < sortKey b)"
proof -
  have fields: "3 < length (split CHR '':'' (Arn a))" "3 < length (split CHR '':'' (Arn b))"
    using assms by (simp_all add: sortable_def arnFields_def)
  have same: "Status a = Status b \<longleftrightarrow> statusRank (Status a) = statusRank (Status b)"
    using assms unfolding sortable_def by (auto simp: statusRank_values)
  show ?thesis
  proof (cases "Status a = Status b")
    case True
    then show ?thesis
      using fields
      by (auto simp: sortRowsLess_def arnRegion_def index_def sortKey_def arnFields_def
          less_prod_def)
  next
    case False
    then have "statusRank (Status a) \<noteq> statusRank (Status b)" using same by simp
    then show ?thesis
      using False by (auto simp: sortRowsLess_def sortKey_def less_prod_def)
  qed
qed

lemma sortRowsLess_rank:
  assumes "sortRowsLess a b = Inr c"
  shows "if c then statusRank (Status a) \<le> statusRank (Status b)
         else statusRank (Status b) \<le> statusRank (Status a)"
proof (cases "Status a = Status b")
  case True
  then show ?thesis by simp
next
  case False
  then have "c = (statusRank (Status a) < statusRank (Status b))"
    using assms by (simp add: sortRowsLess_def)
  then show ?thesis by auto
qed

lemma rowOf_sortable: "4 \<le> length (arnFields (arn f)) \<Longrightarrow> sortable (rowOf f u)"
  using rowStatus_cases [of f u] by (simp add: sortable_def rowOf_def)

lemma analyze_sortable:
  assumes "analyzeSecurityGroupResults facts ps = Inr rows"
    and "\<forall>f \<in> set facts. 4 \<le> length (arnFields (arn f))"
  shows "set rows \<subseteq> {r. sortable r}"
proof
  fix r assume "r \<in> set rows"
  then obtain i where i: "i < length rows" and r: "r = rows ! i"
    by (auto simp: in_set_conv_nth)
  have len: "length rows = length facts" using assms(1) by (rule analyze_length)
  then have i': "i < length facts" using i by simp
  from analyze_nth(2) [OF assms(1) i'] obtain u where "rows ! i = rowOf (facts ! i) u"
    by blast
  moreover have "4 \<le> length (arnFields (arn (facts ! i)))"
    using assms(2) i' by simp
  ultimately show "r \<in> {r. sortable r}" using r rowOf_sortable by simp
qed

lemma sortRowsLess_total:
  "a \<in> {r. sortable r} \<Longrightarrow> b \<in> {r. sortable r} \<Longrightarrow> \<exists>c. sortRowsLess a b = Inr c"
  by (simp add: sortRowsLess_sortKey)

lemma sortRowsLess_ord:
  assumes "a \<in> {r. sortable r}" and "b \<in> {r. sortable r}" and "sortRowsLess a b = Inr c"
  shows "if c then sortKey a \<le> sortKey b else sortKey b \<le> sortKey a"
proof -
  have c: "c = (sortKey a < sortKey b)"
    using assms by (simp add: sortRowsLess_sortKey)
  show ?thesis
  proof (cases c)
    case True
    then show ?thesis using c less_imp_le by simp
  next
    case False
    then show ?thesis using c not_less by simp
  qed
qed

lemma sortRowsLess_strict:
  assumes "a \<in> {r. sortable r}" and "b \<in> {r. sortable r}" and "sortRowsLess a b = Inr True"
  shows "sortKey a \<noteq> sortKey b"
proof -
  have "sortKey a < sortKey b"
    using assms by (simp add: sortRowsLess_sortKey)
  then show ?thesis by (rule less_imp_neq)
qed

lemma SliceStable_sortKey:
  assumes "set rows \<subseteq> {r. sortable r}"
  shows "\<exists>ys. SliceStable sortRowsLess rows = Inr ys \<and> sorted (map sortKey ys) \<and>
           (\<forall>k. filter (\<lambda>r. sortKey r = k) ys = filter (\<lambda>r. sortKey r = k) rows)"
proof -
  have empty: "set ([] :: Row list) \<subseteq> {r. sortable r}" by simp
  from insertionSort_returns [of "{r. sortable r}" sortRowsLess "[]" rows,
      OF sortRowsLess_total empty assms]
  obtain ys where ys: "insertionSort sortRowsLess [] rows = Inr ys" by blast
  have srt0: "sorted (map sortKey (rev ([] :: Row list)))" by simp
  have "sorted (map sortKey ys)"
    by (rule insertionSort_sorted [of "{r. sortable r}" sortRowsLess sortKey "[]" rows,
          OF sortRowsLess_ord empty assms srt0 ys])
  moreover have "filter (\<lambda>r. sortKey r = k) ys = filter (\<lambda>r. sortKey r = k) rows" for k
    using insertionSort_stable [of "{r. sortable r}" sortRowsLess sortKey "[]" rows ys k,
        OF sortRowsLess_strict empty assms ys]
    by (simp only: rev.simps append_Nil)
  ultimately show ?thesis unfolding SliceStable_def ys by blast
qed

lemma SliceStable_rank:
  assumes "SliceStable sortRowsLess rows = Inr ys"
  shows "sorted (map (\<lambda>r. statusRank (Status r)) ys)"
  by (rule insertionSort_sorted [of UNIV sortRowsLess _ "[]" rows, OF sortRowsLess_rank])
    (use assms in \<open>simp_all add: SliceStable_def\<close>)

subsection \<open>Generate, stage by stage\<close>

lemma Generate_Returns:
  assumes "Generate db sp = Returns rep"
  shows "\<exists>facts rows.
           runSecurityGroupQuery db = Inr facts \<and>
           analyzeSecurityGroupResults facts (effectiveSafePorts sp) = Inr rows \<and>
           SliceStable sortRowsLess rows = Inr (Rows rep) \<and>
           loadMetadata db (Rows rep) = Returns (Metadata rep)"
  using assms unfolding Generate_def effectiveSafePorts_def Let_def
  by (auto split: option.splits sum.splits outcome.splits)

lemma loadMetadata_Returns:
  assumes "loadMetadata db rows = Returns md"
  shows "rows \<noteq> [] \<and> 4 < length (arnFields (Arn (rows ! 0))) \<and>
         Account md = arnFields (Arn (rows ! 0)) ! 4"
  using assms unfolding loadMetadata_def index_def arnFields_def Let_def
  by (auto split: sum.splits list.splits if_splits)

lemma loadMetadata_no_panic:
  assumes "rows \<noteq> []" and "5 \<le> length (arnFields (Arn (rows ! 0)))"
  shows "loadMetadata db rows \<noteq> Panics p"
  using assms unfolding loadMetadata_def index_def arnFields_def Let_def
  by (auto split: sum.splits list.splits)

lemma unsafePorts_Inl:
  "unsafePorts f ps = Inl e \<longleftrightarrow>
     portRanges f \<noteq> [] \<and>
     (\<exists>pe. FromString (portRanges f ! 0) = Inl pe \<and>
        e = Wrap pe (''Failed to parse port range '' @ showStrings (portRanges f)))"
  unfolding unsafePorts_def by (auto split: sum.splits)

lemma analyzeLoop_fails:
  assumes "i < length facts" and "unsafePorts (facts ! i) ps = Inl e"
  shows "\<exists>j e'. j \<le> i \<and> unsafePorts (facts ! j) ps = Inl e' \<and>
           (\<forall>k < j. \<exists>u. unsafePorts (facts ! k) ps = Inr u) \<and>
           analyzeLoop facts ps acc = Inl (Wrap e' ''Failed to calculate unsafe ports'')"
  using assms
proof (induction facts arbitrary: i acc)
  case Nil
  then show ?case by simp
next
  case (Cons f facts)
  show ?case
  proof (cases "unsafePorts f ps")
    case (Inl e0)
    then show ?thesis by (intro exI [of _ 0] exI [of _ e0]) simp
  next
    case (Inr u)
    with Cons.prems obtain i' where i': "i = Suc i'" by (cases i) auto
    with Cons.prems have "i' < length facts" "unsafePorts (facts ! i') ps = Inl e" by auto
    from Cons.IH [OF this, of "acc @ [rowOf f u]"] obtain j e' where
      j: "j \<le> i'" "unsafePorts (facts ! j) ps = Inl e'"
        "\<forall>k < j. \<exists>u. unsafePorts (facts ! k) ps = Inr u"
        "analyzeLoop facts ps (acc @ [rowOf f u]) = Inl (Wrap e' ''Failed to calculate unsafe ports'')"
      by blast
    have "\<forall>k < Suc j. \<exists>u. unsafePorts ((f # facts) ! k) ps = Inr u"
      using j(3) Inr by (auto simp: less_Suc_eq_0_disj)
    then show ?thesis
      using j i' Inr by (intro exI [of _ "Suc j"] exI [of _ e']) (simp add: rowOf_def)
  qed
qed

lemma Generate_Panics:
  assumes "Generate db sp = Panics p"
  shows "\<exists>facts rows.
           runSecurityGroupQuery db = Inr facts \<and>
           analyzeSecurityGroupResults facts (effectiveSafePorts sp) = Inr rows \<and>
           (SliceStable sortRowsLess rows = Inl p \<or>
            (\<exists>ys. SliceStable sortRowsLess rows = Inr ys \<and> loadMetadata db ys = Panics p))"
  using assms unfolding Generate_def effectiveSafePorts_def Let_def
  by (auto split: option.splits sum.splits outcome.splits)

lemma Generate_analysis_fails:
  assumes "openResult db = None" and "pingResult db = None" and "installDbFunctions db = None"
    and "runSecurityGroupQuery db = Inr facts"
    and "analyzeSecurityGroupResults facts (effectiveSafePorts sp) = Inl err"
  shows "Generate db sp = Fails (Wrap err ''Failed to generate report from query results'')"
  using assms unfolding Generate_def effectiveSafePorts_def Let_def by simp

lemma Generate_fetched_fails:
  assumes "runSecurityGroupQuery db = Inr facts"
    and "analyzeSecurityGroupResults facts (effectiveSafePorts sp) = Inl err"
  shows "\<exists>e. Generate db sp = Fails e"
  using assms unfolding Generate_def effectiveSafePorts_def Let_def
  by (simp split: option.splits)

lemma Generate_safePorts: "Generate db sp = Generate db (Some (effectiveSafePorts sp))"
  unfolding Generate_def effectiveSafePorts_def
  by (simp split: option.split sum.split)

lemma analyze_arn:
  assumes "analyzeSecurityGroupResults facts ps = Inr rows" and "r \<in> set rows"
  shows "\<exists>f \<in> set facts. Arn r = arn f"
proof -
  from assms(2) obtain i where i: "i < length rows" and r: "r = rows ! i"
    by (auto simp: in_set_conv_nth)
  have i': "i < length facts" using i analyze_length [OF assms(1)] by simp
  from analyze_nth(2) [OF assms(1) i'] obtain u where "rows ! i = rowOf (facts ! i) u"
    by blast
  then have "Arn r = arn (facts ! i)" using r by (simp add: rowOf_def)
  then show ?thesis using i' by auto
qed

subsection \<open>The example inputs, evaluated\<close>

lemma scanRows_map: "scanRows (map Inr facts) acc = Inr (acc @ facts)"
  by (induction facts arbitrary: acc) simp_all

lemma demoDb_query: "runSecurityGroupQuery (demoDb facts) = Inr facts"
  by (simp add: runSecurityGroupQuery_def loadQuery_def demoDb_def scanRows_map)

lemma demoDb_stages:
  "openResult (demoDb facts) = None" "pingResult (demoDb facts) = None"
  "installDbFunctions (demoDb facts) = None"
  by (simp_all add: installDbFunctions_def loadQuery_def demoDb_def)

lemma demoDb_import:
  "loadQuery (demoDb facts) ''most_recent_import'' = Inr ''/queries/most_recent_import.sql''"
  "importQuery (demoDb facts) q = Inr [Inr (5, ''OrgDummy-1'')]"
  "now (demoDb facts) = 7"
  by (simp_all add: loadQuery_def demoDb_def)

lemma example_analysis:
  "analyzeSecurityGroupResults [sgIdle, sgWeb, sgDb] [22, 80, 443] =
     Inr [rowOf sgIdle [], rowOf sgWeb [(20, 21), (23, 25)], rowOf sgDb []]"
  by code_simp

lemma example_status:
  "rowStatus sgIdle [] = ''yellow''" "rowStatus sgWeb [(20, 21), (23, 25)] = ''red''"
  "rowStatus sgDb [] = ''red''" "rowStatus sgShortArn [] = ''yellow''"
  by (simp_all add: rowStatus_def isProblematic_def sgIdle_def sgWeb_def sgDb_def
      sgShortArn_def)

lemma example_fields:
  "arnFields (arn sgIdle) = [''arn'', ''aws'', ''ec2'', ''us-east-1'', ''42'', ''sg/2'']"
  "arnFields (arn sgWeb) = [''arn'', ''aws'', ''ec2'', ''us-west-2'', ''42'', ''sg/1'']"
  "arnFields (arn sgDb) = [''arn'', ''aws'', ''ec2'', ''us-east-1'', ''42'', ''sg/3'']"
  "arnFields (arn sgShortArn) = [''sg-5'']"
  by (simp_all add: arnFields_def sgIdle_def sgWeb_def sgDb_def sgShortArn_def)

lemma example_less:
  "sortRowsLess (rowOf sgWeb [(20, 21), (23, 25)]) (rowOf sgIdle []) = Inr True"
  "sortRowsLess (rowOf sgDb []) (rowOf sgWeb [(20, 21), (23, 25)]) = Inr True"
  "sortRowsLess (rowOf sgDb []) (rowOf sgIdle []) = Inr True"
  using example_fields
  by (simp_all add: sortRowsLess_def rowOf_def example_status arnRegion_def index_def
      arnFields_def statusRank_def statusIndex_def)

lemma example_sort:
  "SliceStable sortRowsLess [rowOf sgIdle [], rowOf sgWeb [(20, 21), (23, 25)], rowOf sgDb []] =
     Inr [rowOf sgDb [], rowOf sgWeb [(20, 21), (23, 25)], rowOf sgIdle []]"
  by (simp add: SliceStable_def example_less)

lemma example_metadata:
  "loadMetadata (demoDb facts) [rowOf sgDb [], rowOf sgWeb [(20, 21), (23, 25)], rowOf sgIdle []] =
     Returns \<lparr>Imported = 5, Generated = 7, Account = ''42'', Organization = ''<NONE>''\<rparr>"
  using example_fields(3)
  by (simp add: loadMetadata_def demoDb_import index_def rowOf_def arnFields_def hasPrefix_def)

lemma example_generate:
  "Generate (demoDb [sgIdle, sgWeb, sgDb]) None =
     Returns \<lparr>Metadata = \<lparr>Imported = 5, Generated = 7, Account = ''42'',
                            Organization = ''<NONE>''\<rparr>,
              Rows = [rowOf sgDb [], rowOf sgWeb [(20, 21), (23, 25)], rowOf sgIdle []]\<rparr>"
  by (simp add: Generate_def demoDb_stages demoDb_query defaultSafePorts_def example_analysis
      example_sort example_metadata)

lemma example_short_arn:
  "analyzeSecurityGroupResults [] ps = Inr []"
  "analyzeSecurityGroupResults [sgShortArn] [22, 80, 443] = Inr [rowOf sgShortArn []]"
  "analyzeSecurityGroupResults [sgShortArn, sgShortArn] [22, 80, 443] =
     Inr [rowOf sgShortArn [], rowOf sgShortArn []]"
  by (simp_all add: analyzeSecurityGroupResults_def unsafePorts_def rowOf_def sgShortArn_def)

lemma example_malformed:
  "FromString ''5-2'' = Inl (ParseError ''5-2'')"
  "portRanges sgMalformed = [''5-2'']"
  by code_simp+

subsection \<open>The order of the returned rows, whatever the ARNs\<close>

lemma arnRegion_fields: "arnRegion a = Inr region \<Longrightarrow> 4 \<le> length (arnFields a)"
  by (simp add: arnRegion_def index_def arnFields_def Let_def split: if_splits)

lemma sortRowsLess_decides:
  assumes "a \<in> {r. Status r \<in> {''red'', ''yellow'', ''green''}}"
    and "b \<in> {r. Status r \<in> {''red'', ''yellow'', ''green''}}"
    and "sortRowsLess a b = Inr c"
  shows "c = (sortKey a < sortKey b)"
proof (cases "Status a = Status b")
  case True
  with assms(3) obtain ra rb where
    "arnRegion (Arn a) = Inr ra" and "arnRegion (Arn b) = Inr rb"
    by (auto simp: sortRowsLess_def split: sum.splits)
  then have "sortable a" and "sortable b"
    using assms(1,2) arnRegion_fields unfolding sortable_def by blast+
  then have "sortRowsLess a b = Inr (sortKey a < sortKey b)"
    by (rule sortRowsLess_sortKey)
  with assms(3) show ?thesis by simp
next
  case False
  then have c: "c = (statusRank (Status a) < statusRank (Status b))"
    using assms(3) by (simp add: sortRowsLess_def)
  have "statusRank (Status a) \<noteq> statusRank (Status b)"
    using False assms(1,2) by (auto simp: statusRank_values)
  then show ?thesis using c by (auto simp: sortKey_def less_prod_def)
qed

lemma sortRowsLess_decides_ord:
  assumes "a \<in> {r. Status r \<in> {''red'', ''yellow'', ''green''}}"
    and "b \<in> {r. Status r \<in> {''red'', ''yellow'', ''green''}}"
    and "sortRowsLess a b = Inr c"
  shows "if c then sortKey a \<le> sortKey b else sortKey b \<le> sortKey a"
proof -
  note c = sortRowsLess_decides [OF assms]
  show ?thesis
  proof (cases c)
    case True
    then show ?thesis using c less_imp_le by simp
  next
    case False
    then show ?thesis using c not_less by simp
  qed
qed

lemma sortRowsLess_decides_strict:
  assumes "a \<in> {r. Status r \<in> {''red'', ''yellow'', ''green''}}"
    and "b \<in> {r. Status r \<in> {''red'', ''yellow'', ''green''}}"
    and "sortRowsLess a b = Inr True"
  shows "sortKey a \<noteq> sortKey b"
proof -
  have "sortKey a < sortKey b" using sortRowsLess_decides [OF assms] by simp
  then show ?thesis by (rule less_imp_neq)
qed

lemma analyze_statuses:
  assumes "analyzeSecurityGroupResults facts ps = Inr rows"
  shows "set rows \<subseteq> {r. Status r \<in> {''red'', ''yellow'', ''green''}}"
proof
  fix r assume "r \<in> set rows"
  then obtain i where i: "i < length rows" and r: "r = rows ! i"
    by (auto simp: in_set_conv_nth)
  have i': "i < length facts" using i analyze_length [OF assms] by simp
  from analyze_nth(2) [OF assms i'] obtain u where "rows ! i = rowOf (facts ! i) u"
    by blast
  then have "Status r = rowStatus (facts ! i) u" using r by (simp add: rowOf_def)
  then show "r \<in> {r. Status r \<in> {''red'', ''yellow'', ''green''}}"
    using rowStatus_cases [of "facts ! i" u] by simp
qed

lemma SliceStable_returned_sortKey:
  assumes "set rows \<subseteq> {r. Status r \<in> {''red'', ''yellow'', ''green''}}"
    and "SliceStable sortRowsLess rows = Inr ys"
  shows "sorted (map sortKey ys)"
    and "filter (\<lambda>r. sortKey r = k) ys = filter (\<lambda>r. sortKey r = k) rows"
proof -
  have empty: "set ([] :: Row list) \<subseteq> {r. Status r \<in> {''red'', ''yellow'', ''green''}}"
    by simp
  have ys: "insertionSort sortRowsLess [] rows = Inr ys"
    using assms(2) by (simp add: SliceStable_def)
  have srt0: "sorted (map sortKey (rev ([] :: Row list)))" by simp
  show "sorted (map sortKey ys)"
    by (rule insertionSort_sorted [of "{r. Status r \<in> {''red'', ''yellow'', ''green''}}"
          sortRowsLess sortKey "[]" rows, OF sortRowsLess_decides_ord empty assms(1) srt0 ys])
  show "filter (\<lambda>r. sortKey r = k) ys = filter (\<lambda>r. sortKey r = k) rows"
    using insertionSort_stable [of "{r. Status r \<in> {''red'', ''yellow'', ''green''}}"
        sortRowsLess sortKey "[]" rows ys k, OF sortRowsLess_decides_strict empty assms(1) ys]
    by (simp only: rev.simps append_Nil)
qed

lemma example_short_analysis:
  "analyzeSecurityGroupResults [sgShortArn, sgDb] [22, 80, 443] =
     Inr [rowOf sgShortArn [], rowOf sgDb []]"
  by (simp add: analyzeSecurityGroupResults_def unsafePorts_def rowOf_def sgShortArn_def
      sgDb_def)

lemma example_short_sort:
  "SliceStable sortRowsLess [rowOf sgShortArn [], rowOf sgDb []] =
     Inr [rowOf sgDb [], rowOf sgShortArn []]"
proof -
  have "sortRowsLess (rowOf sgDb []) (rowOf sgShortArn []) = Inr True"
    by (simp add: sortRowsLess_def rowOf_def example_status statusRank_def statusIndex_def)
  then show ?thesis by (simp add: SliceStable_def)
qed

lemma example_short_metadata:
  "loadMetadata (demoDb facts) [rowOf sgDb [], rowOf sgShortArn []] =
     Returns \<lparr>Imported = 5, Generated = 7, Account = ''42'', Organization = ''<NONE>''\<rparr>"
  using example_fields(3)
  by (simp add: loadMetadata_def demoDb_import index_def rowOf_def arnFields_def hasPrefix_def)

lemma example_short_generate:
  "Generate (demoDb [sgShortArn, sgDb]) None =
     Returns \<lparr>Metadata = \<lparr>Imported = 5, Generated = 7, Account = ''42'',
                            Organization = ''<NONE>''\<rparr>,
              Rows = [rowOf sgDb [], rowOf sgShortArn []]\<rparr>"
  by (simp add: Generate_def demoDb_stages demoDb_query defaultSafePorts_def
      example_short_analysis example_short_sort example_short_metadata)

section \<open>The claims\<close>

text \<open>
  C1: the status of every row that the classifier produces is the one the decision table
  of section 4.2 gives for its fact and the fact's unsafe-port set, the table being read
  in its stated order and "problematic" meaning largeRangeCount or isLargePublicBlock;
  the unsafe-port set has size 0 exactly when it has no member.
\<close>

theorem C1_status_decision_table:
  assumes "analyzeSecurityGroupResults facts ps = Inr rows" and "i < length facts"
  shows "\<exists>u. unsafePorts (facts ! i) ps = Inr u \<and>
           Status (rows ! i) = tableStatus (facts ! i) u \<and>
           (Size u = 0 \<longleftrightarrow> members u = {})"
proof -
  from analyze_nth(2) [OF assms] obtain u where
    u: "unsafePorts (facts ! i) ps = Inr u" and row: "rows ! i = rowOf (facts ! i) u"
    by blast
  have "Status (rows ! i) = tableStatus (facts ! i) u"
    by (simp add: row rowOf_def rowStatus_table)
  moreover have "Size u = 0 \<longleftrightarrow> members u = {}"
    using u by (intro Size_zero_iff unsafePorts_wellFormed)
  ultimately show ?thesis using u by blast
qed

theorem C1_status_decision_table_witness:
  "analyzeSecurityGroupResults [sgWeb, sgIdle] [22] =
     Inr [rowOf sgWeb [(20, 21), (23, 25)], rowOf sgIdle []] \<and>
   (0 :: nat) < length [sgWeb, sgIdle] \<and>
   (\<exists>u. unsafePorts ([sgWeb, sgIdle] ! 0) [22] = Inr u \<and>
      Status ([rowOf sgWeb [(20, 21), (23, 25)], rowOf sgIdle []] ! 0) =
        tableStatus ([sgWeb, sgIdle] ! 0) u \<and>
      (Size u = 0 \<longleftrightarrow> members u = {}))"
proof -
  have i: "(0 :: nat) < length [sgWeb, sgIdle]" by simp
  show ?thesis using example_rows i C1_status_decision_table [OF example_rows i] by blast
qed

text \<open>
  C2: the notes of every row that the classifier produces are, in this order, the
  unsafe-port note iff the unsafe-port set is non-empty and internalOnly is false, the
  large-range note iff isLargePublicBlock, the many-ranges note iff largeRangeCount, "Not
  in use" iff inUse is false, and last exactly one of the two notes on public IP
  addresses; so every row has at least one note.
\<close>

theorem C2_notes_fixed_order:
  assumes "analyzeSecurityGroupResults facts ps = Inr rows" and "i < length facts"
  shows "\<exists>u. unsafePorts (facts ! i) ps = Inr u \<and>
           Notes (rows ! i) = tableNotes (facts ! i) u \<and>
           (0 < Size u \<longleftrightarrow> members u \<noteq> {}) \<and>
           1 \<le> length (Notes (rows ! i))"
proof -
  from analyze_nth(2) [OF assms] obtain u where
    u: "unsafePorts (facts ! i) ps = Inr u" and row: "rows ! i = rowOf (facts ! i) u"
    by blast
  have wf: "wellFormed u" using u by (rule unsafePorts_wellFormed)
  have nts: "Notes (rows ! i) = tableNotes (facts ! i) u"
    by (simp add: row rowOf_def notes_of_table)
  have "0 < Size u \<longleftrightarrow> members u \<noteq> {}"
    using Size_zero_iff [OF wf] Size_nonneg [OF wf] by linarith
  moreover have "1 \<le> length (tableNotes (facts ! i) u)"
    by (simp add: tableNotes_def)
  ultimately show ?thesis using u nts by auto
qed

theorem C2_notes_fixed_order_witness:
  "analyzeSecurityGroupResults [sgWeb, sgIdle] [22] =
     Inr [rowOf sgWeb [(20, 21), (23, 25)], rowOf sgIdle []] \<and>
   (1 :: nat) < length [sgWeb, sgIdle] \<and>
   (\<exists>u. unsafePorts ([sgWeb, sgIdle] ! 1) [22] = Inr u \<and>
      Notes ([rowOf sgWeb [(20, 21), (23, 25)], rowOf sgIdle []] ! 1) =
        tableNotes ([sgWeb, sgIdle] ! 1) u \<and>
      (0 < Size u \<longleftrightarrow> members u \<noteq> {}) \<and>
      1 \<le> length (Notes ([rowOf sgWeb [(20, 21), (23, 25)], rowOf sgIdle []] ! 1)))"
proof -
  have i: "(1 :: nat) < length [sgWeb, sgIdle]" by simp
  show ?thesis using example_rows i C2_notes_fixed_order [OF example_rows i] by blast
qed

text \<open>
  C3: when a fact has a port-range entry, its unsafe-port set is the MultiRange parsed
  from the first entry with every safe port removed, so its members are those of the
  parsed set that are not safe ports; when it has none, the unsafe-port set is empty:
  then no note on unsafe ports is written and a red status comes only from a default
  group or a problematic fact.
\<close>

theorem C3_unsafe_port_set:
  "(portRanges f = text # rest \<and> FromString text = Inr mr \<longrightarrow>
      unsafePorts f ps = Inr (foldl (\<lambda>m port. RemoveElement port m) mr ps) \<and>
      members (foldl (\<lambda>m port. RemoveElement port m) mr ps) = members mr - set ps) \<and>
   (portRanges f = [] \<longrightarrow>
      unsafePorts f ps = Inr [] \<and> members [] = {} \<and> Size [] = 0 \<and>
      (\<forall>n \<in> set (notes_of f []). take 6 n \<noteq> ''Allows'') \<and>
      (rowStatus f [] = ''red'' \<longrightarrow> isDefault f \<or> problematic f))"
proof -
  have "\<forall>n \<in> set (notes_of f []). take 6 n \<noteq> ''Allows''"
    by (simp add: notes_of_def)
  moreover have "rowStatus f [] = ''red'' \<longrightarrow> isDefault f \<or> problematic f"
    by (simp add: rowStatus_def isProblematic_iff)
  ultimately show ?thesis
    by (simp add: unsafePorts_def members_removeAll) (simp add: members_def)
qed

theorem C3_unsafe_port_set_witness:
  "(portRanges sgWeb = ''20-25'' # [] \<and> FromString ''20-25'' = Inr [(20, 25)]) \<and>
   unsafePorts sgWeb [22] = Inr [(20, 21), (23, 25)] \<and>
   members (foldl (\<lambda>m port. RemoveElement port m) [(20, 25)] [22]) = members [(20, 25)] - set [22] \<and>
   portRanges sgDb = [] \<and> unsafePorts sgDb [22] = Inr [] \<and>
   ''Contains 1 public IP address(es)'' \<in> set (notes_of sgDb []) \<and>
   take 6 ''Contains 1 public IP address(es)'' \<noteq> ''Allows'' \<and>
   rowStatus sgDb [] = ''red'' \<and> (isDefault sgDb \<or> problematic sgDb)"
proof -
  have a: "portRanges sgWeb = ''20-25'' # [] \<and> FromString ''20-25'' = Inr [(20, 25)]"
    by code_simp
  have b: "portRanges sgDb = []" by (simp add: sgDb_def)
  have c: "foldl (\<lambda>m port. RemoveElement port m) [(20, 25)] [22] = [(20, 21), (23, 25)]"
    by simp
  have d: "''Contains 1 public IP address(es)'' \<in> set (notes_of sgDb [])"
    by code_simp
  have e: "rowStatus sgDb [] = ''red''" by code_simp
  show ?thesis
    using a b c d e C3_unsafe_port_set [of sgWeb "''20-25''" "[]" "[(20, 25)]" "[22]"]
      C3_unsafe_port_set [of sgDb "''20-25''" "[]" "[(20, 25)]" "[22]"]
    by simp
qed

text \<open>
  C4: the rows Generate returns are the classified rows put in order by
  \<open>sort.SliceStable\<close>: the same rows, ascending in the composite key of severity rank
  (red 0, yellow 1, green 2), then region (field 3 of the ARN), then name, and the rows
  of any one key in the order they had before the sort.
\<close>

theorem C4_stable_sort_by_composite_key:
  assumes "Generate db sp = Returns rep"
  shows "\<exists>facts rows.
           runSecurityGroupQuery db = Inr facts \<and>
           analyzeSecurityGroupResults facts (effectiveSafePorts sp) = Inr rows \<and>
           SliceStable sortRowsLess rows = Inr (Rows rep) \<and>
           mset (Rows rep) = mset rows \<and>
           sorted (map sortKey (Rows rep)) \<and>
           (\<forall>k. filter (\<lambda>r. sortKey r = k) (Rows rep) = filter (\<lambda>r. sortKey r = k) rows) \<and>
           statusRank ''red'' = 0 \<and> statusRank ''yellow'' = 1 \<and> statusRank ''green'' = 2"
proof -
  from Generate_Returns [OF assms] obtain facts rows where
    facts: "runSecurityGroupQuery db = Inr facts"
    and rows: "analyzeSecurityGroupResults facts (effectiveSafePorts sp) = Inr rows"
    and srt: "SliceStable sortRowsLess rows = Inr (Rows rep)"
    by blast
  note statuses = analyze_statuses [OF rows]
  have "sorted (map sortKey (Rows rep))"
    using statuses srt by (rule SliceStable_returned_sortKey(1))
  moreover have "\<forall>k. filter (\<lambda>r. sortKey r = k) (Rows rep) = filter (\<lambda>r. sortKey r = k) rows"
    using SliceStable_returned_sortKey(2) [OF statuses srt] by blast
  moreover have "mset (Rows rep) = mset rows" using srt by (rule SliceStable_mset)
  ultimately show ?thesis
    using facts rows srt statusRank_values by blast
qed

theorem C4_stable_sort_by_composite_key_witness:
  "Generate (demoDb [sgIdle, sgWeb, sgDb]) None =
     Returns \<lparr>Metadata = \<lparr>Imported = 5, Generated = 7, Account = ''42'',
                            Organization = ''<NONE>''\<rparr>,
              Rows = [rowOf sgDb [], rowOf sgWeb [(20, 21), (23, 25)], rowOf sgIdle []]\<rparr> \<and>
   sorted (map sortKey [rowOf sgDb [], rowOf sgWeb [(20, 21), (23, 25)], rowOf sgIdle []]) \<and>
   Generate (demoDb [sgShortArn, sgDb]) None =
     Returns \<lparr>Metadata = \<lparr>Imported = 5, Generated = 7, Account = ''42'',
                            Organization = ''<NONE>''\<rparr>,
              Rows = [rowOf sgDb [], rowOf sgShortArn []]\<rparr> \<and>
   sorted (map sortKey [rowOf sgDb [], rowOf sgShortArn []])"
proof -
  from C4_stable_sort_by_composite_key [OF example_generate]
  have a: "sorted (map sortKey [rowOf sgDb [], rowOf sgWeb [(20, 21), (23, 25)], rowOf sgIdle []])"
    by auto
  from C4_stable_sort_by_composite_key [OF example_short_generate]
  have b: "sorted (map sortKey [rowOf sgDb [], rowOf sgShortArn []])"
    by auto
  show ?thesis
    using a b example_generate example_short_generate by blast
qed

text \<open>
  C5: a run of Generate that returns a report returns as many rows as facts were
  fetched: the classifier gives one row for each fact and the sort returns the same
  rows, none lost and none twice.
\<close>

theorem C5_row_count_conservation:
  assumes "Generate db sp = Returns rep"
  shows "\<exists>facts rows.
           runSecurityGroupQuery db = Inr facts \<and>
           analyzeSecurityGroupResults facts (effectiveSafePorts sp) = Inr rows \<and>
           length rows = length facts \<and>
           mset (Rows rep) = mset rows \<and>
           length (Rows rep) = length facts"
proof -
  from Generate_Returns [OF assms] obtain facts rows where
    facts: "runSecurityGroupQuery db = Inr facts"
    and rows: "analyzeSecurityGroupResults facts (effectiveSafePorts sp) = Inr rows"
    and srt: "SliceStable sortRowsLess rows = Inr (Rows rep)"
    by blast
  have len: "length rows = length facts" using rows by (rule analyze_length)
  have ms: "mset (Rows rep) = mset rows" using srt by (rule SliceStable_mset)
  have "length (Rows rep) = length rows" using ms by (rule mset_eq_length)
  then show ?thesis using facts rows len ms by auto
qed

theorem C5_row_count_conservation_witness:
  "Generate (demoDb [sgIdle, sgWeb, sgDb]) None =
     Returns \<lparr>Metadata = \<lparr>Imported = 5, Generated = 7, Account = ''42'',
                            Organization = ''<NONE>''\<rparr>,
              Rows = [rowOf sgDb [], rowOf sgWeb [(20, 21), (23, 25)], rowOf sgIdle []]\<rparr> \<and>
   runSecurityGroupQuery (demoDb [sgIdle, sgWeb, sgDb]) = Inr [sgIdle, sgWeb, sgDb] \<and>
   length [rowOf sgDb [], rowOf sgWeb [(20, 21), (23, 25)], rowOf sgIdle []] =
     length [sgIdle, sgWeb, sgDb]"
  using C5_row_count_conservation [OF example_generate] example_generate
    demoDb_query [of "[sgIdle, sgWeb, sgDb]"]
  by simp

text \<open>
  C6 as stated, that Generate returns a report or an error for every fetched fact
  sequence and every ARN, does not hold: with no fact the read of the first row panics,
  with an ARN of one field the read of field 4 panics, and with two rows of one status and
  such ARNs the read of the region panics inside the sort.
\<close>

theorem C6_generate_total_counterexample:
  "Generate (demoDb []) None = Panics (IndexOutOfRange 0 0) \<and>
   Generate (demoDb [sgShortArn]) None = Panics (IndexOutOfRange 4 1) \<and>
   Generate (demoDb [sgShortArn, sgShortArn]) None = Panics (IndexOutOfRange 3 1)"
proof (intro conjI)
  show "Generate (demoDb []) None = Panics (IndexOutOfRange 0 0)"
    by (simp add: Generate_def demoDb_stages demoDb_query example_short_arn SliceStable_def
        loadMetadata_def demoDb_import index_def)
  have one: "arnFields (Arn (rowOf sgShortArn [])) = [''sg-5'']"
    using example_fields(4) by (simp add: rowOf_def)
  show "Generate (demoDb [sgShortArn]) None = Panics (IndexOutOfRange 4 1)"
    using one
    by (simp add: Generate_def demoDb_stages demoDb_query defaultSafePorts_def
        example_short_arn SliceStable_def loadMetadata_def demoDb_import index_def
        arnFields_def)
  have "sortRowsLess (rowOf sgShortArn []) (rowOf sgShortArn []) = Inl (IndexOutOfRange 3 1)"
    using one by (simp add: sortRowsLess_def arnRegion_def index_def arnFields_def)
  then show "Generate (demoDb [sgShortArn, sgShortArn]) None = Panics (IndexOutOfRange 3 1)"
    by (simp add: Generate_def demoDb_stages demoDb_query defaultSafePorts_def
        example_short_arn SliceStable_def)
qed

text \<open>
  C6, amended: Generate returns a report or an error, and does not panic, whenever the
  fetched fact sequence is not empty and every ARN in it has at least five
  colon-delimited fields.
\<close>

theorem C6_generate_total_amended:
  assumes "\<forall>facts. runSecurityGroupQuery db = Inr facts \<longrightarrow>
             facts \<noteq> [] \<and> (\<forall>f \<in> set facts. 5 \<le> length (arnFields (arn f)))"
  shows "(\<exists>rep. Generate db sp = Returns rep) \<or> (\<exists>err. Generate db sp = Fails err)"
proof -
  have "Generate db sp \<noteq> Panics p" for p
  proof
    assume "Generate db sp = Panics p"
    from Generate_Panics [OF this] obtain facts rows where
      facts: "runSecurityGroupQuery db = Inr facts"
      and rows: "analyzeSecurityGroupResults facts (effectiveSafePorts sp) = Inr rows"
      and panic: "SliceStable sortRowsLess rows = Inl p \<or>
        (\<exists>ys. SliceStable sortRowsLess rows = Inr ys \<and> loadMetadata db ys = Panics p)"
      by blast
    have ne: "facts \<noteq> []" and five: "\<forall>f \<in> set facts. 5 \<le> length (arnFields (arn f))"
      using assms facts by blast+
    have "\<forall>f \<in> set facts. 4 \<le> length (arnFields (arn f))"
      using five by fastforce
    then have "set rows \<subseteq> {r. sortable r}"
      using rows by (intro analyze_sortable)
    from SliceStable_sortKey [OF this] obtain ys where
      ys: "SliceStable sortRowsLess rows = Inr ys" by blast
    with panic have md: "loadMetadata db ys = Panics p" by simp
    have ms: "mset ys = mset rows" using ys by (rule SliceStable_mset)
    have "length ys = length facts"
      using mset_eq_length [OF ms] analyze_length [OF rows] by simp
    then have ys_ne: "ys \<noteq> []" using ne by auto
    then have "ys ! 0 \<in> set rows"
      using mset_eq_setD [OF ms] by (cases ys) auto
    from analyze_arn [OF rows this] five
    have "5 \<le> length (arnFields (Arn (ys ! 0)))" by auto
    from loadMetadata_no_panic [OF ys_ne this] md show False by blast
  qed
  then show ?thesis by (cases "Generate db sp") auto
qed

theorem C6_generate_total_amended_witness:
  "runSecurityGroupQuery (demoDb [sgIdle, sgWeb, sgDb]) = Inr [sgIdle, sgWeb, sgDb] \<and>
   [sgIdle, sgWeb, sgDb] \<noteq> [] \<and>
   5 \<le> length (arnFields (arn sgIdle)) \<and> 5 \<le> length (arnFields (arn sgWeb)) \<and>
   5 \<le> length (arnFields (arn sgDb)) \<and>
   ((\<exists>rep. Generate (demoDb [sgIdle, sgWeb, sgDb]) None = Returns rep) \<or>
    (\<exists>err. Generate (demoDb [sgIdle, sgWeb, sgDb]) None = Fails err))"
proof -
  have hyp: "\<forall>facts. runSecurityGroupQuery (demoDb [sgIdle, sgWeb, sgDb]) = Inr facts \<longrightarrow>
      facts \<noteq> [] \<and> (\<forall>f \<in> set facts. 5 \<le> length (arnFields (arn f)))"
    by (simp add: demoDb_query example_fields)
  show ?thesis
    using C6_generate_total_amended [OF hyp, of None] demoDb_query [of "[sgIdle, sgWeb, sgDb]"]
    by (simp add: example_fields)
qed

text \<open>
  C7: when the facts are fetched and the port-range text of one of them does not
  parse, Generate returns an error and no report; when the stages before the
  classification succeed, the error is the parse error of the first such fact, wrapped
  with the descriptions of the stages that failed.
\<close>

theorem C7_parse_failure_aborts:
  assumes "runSecurityGroupQuery db = Inr facts"
    and "i < length facts"
    and "portRanges (facts ! i) \<noteq> []"
    and "FromString (portRanges (facts ! i) ! 0) = Inl pe"
  shows "(\<exists>err. Generate db sp = Fails err) \<and>
         (openResult db = None \<and> pingResult db = None \<and> installDbFunctions db = None \<longrightarrow>
            (\<exists>j pe'. j \<le> i \<and> FromString (portRanges (facts ! j) ! 0) = Inl pe' \<and>
               Generate db sp =
                 Fails (Wrap (Wrap (Wrap pe' (''Failed to parse port range '' @
                                                showStrings (portRanges (facts ! j))))
                                ''Failed to calculate unsafe ports'')
                          ''Failed to generate report from query results'')))"
proof -
  let ?ps = "effectiveSafePorts sp"
  have "unsafePorts (facts ! i) ?ps =
          Inl (Wrap pe (''Failed to parse port range '' @ showStrings (portRanges (facts ! i))))"
    using assms(3,4) by (simp add: unsafePorts_Inl)
  from analyzeLoop_fails [OF assms(2) this, of "[]"] obtain j e' where
    j: "j \<le> i" and e': "unsafePorts (facts ! j) ?ps = Inl e'"
    and fails: "analyzeSecurityGroupResults facts ?ps =
                  Inl (Wrap e' ''Failed to calculate unsafe ports'')"
    unfolding analyzeSecurityGroupResults_def by blast
  from e' obtain pe' where pe': "FromString (portRanges (facts ! j) ! 0) = Inl pe'"
    and e'_eq: "e' = Wrap pe' (''Failed to parse port range '' @
                                 showStrings (portRanges (facts ! j)))"
    unfolding unsafePorts_Inl by blast
  have first: "\<exists>err. Generate db sp = Fails err"
    using assms(1) fails by (rule Generate_fetched_fails)
  have "Generate db sp =
          Fails (Wrap (Wrap e' ''Failed to calculate unsafe ports'')
                   ''Failed to generate report from query results'')"
    if "openResult db = None" "pingResult db = None" "installDbFunctions db = None"
    using that assms(1) fails by (rule Generate_analysis_fails)
  then show ?thesis using first j pe' e'_eq by blast
qed

theorem C7_parse_failure_aborts_witness:
  "runSecurityGroupQuery (demoDb [sgIdle, sgMalformed, sgWeb]) = Inr [sgIdle, sgMalformed, sgWeb] \<and>
   (1 :: nat) < length [sgIdle, sgMalformed, sgWeb] \<and>
   portRanges ([sgIdle, sgMalformed, sgWeb] ! 1) \<noteq> [] \<and>
   FromString (portRanges ([sgIdle, sgMalformed, sgWeb] ! 1) ! 0) = Inl (ParseError ''5-2'') \<and>
   (\<exists>err. Generate (demoDb [sgIdle, sgMalformed, sgWeb]) None = Fails err)"
proof -
  have a: "(1 :: nat) < length [sgIdle, sgMalformed, sgWeb]" by simp
  have b: "portRanges ([sgIdle, sgMalformed, sgWeb] ! 1) \<noteq> []"
    by (simp add: example_malformed)
  have c: "FromString (portRanges ([sgIdle, sgMalformed, sgWeb] ! 1) ! 0) = Inl (ParseError ''5-2'')"
    by (simp add: example_malformed)
  show ?thesis
    using a b c demoDb_query [of "[sgIdle, sgMalformed, sgWeb]"]
      C7_parse_failure_aborts [OF demoDb_query a b c, of None]
    by blast
qed

text \<open>
  C8: without a safe-port list (a nil slice) Generate works as with the list 22, 80,
  443; with a list, the rows are classified with that very list, each fact's unsafe ports
  being its parsed ports without the ports of the list.
\<close>

theorem C8_default_safe_ports:
  "Generate db None = Generate db (Some [22, 80, 443]) \<and>
   effectiveSafePorts None = [22, 80, 443] \<and> effectiveSafePorts (Some ps) = ps \<and>
   (Generate db (Some ps) = Returns rep \<longrightarrow>
      (\<exists>facts rows.
         runSecurityGroupQuery db = Inr facts \<and>
         analyzeSecurityGroupResults facts ps = Inr rows \<and>
         SliceStable sortRowsLess rows = Inr (Rows rep) \<and>
         list_all2 (\<lambda>f r. \<exists>u. unsafePorts f ps = Inr u \<and> r = rowOf f u) facts rows))"
proof -
  have "Generate db None = Generate db (Some [22, 80, 443])"
    using Generate_safePorts [of db None]
    by (simp add: effectiveSafePorts_def defaultSafePorts_def)
  moreover have "\<exists>facts rows.
         runSecurityGroupQuery db = Inr facts \<and>
         analyzeSecurityGroupResults facts ps = Inr rows \<and>
         SliceStable sortRowsLess rows = Inr (Rows rep) \<and>
         list_all2 (\<lambda>f r. \<exists>u. unsafePorts f ps = Inr u \<and> r = rowOf f u) facts rows"
    if "Generate db (Some ps) = Returns rep"
  proof -
    from Generate_Returns [OF that] obtain facts rows where
      "runSecurityGroupQuery db = Inr facts"
      "analyzeSecurityGroupResults facts ps = Inr rows"
      "SliceStable sortRowsLess rows = Inr (Rows rep)"
      by (auto simp: effectiveSafePorts_def)
    then show ?thesis using analyze_rows by blast
  qed
  ultimately show ?thesis
    by (simp add: effectiveSafePorts_def defaultSafePorts_def)
qed

theorem C8_default_safe_ports_witness:
  "Generate (demoDb [sgIdle, sgWeb, sgDb]) (Some [22, 80, 443]) =
     Returns \<lparr>Metadata = \<lparr>Imported = 5, Generated = 7, Account = ''42'',
                            Organization = ''<NONE>''\<rparr>,
              Rows = [rowOf sgDb [], rowOf sgWeb [(20, 21), (23, 25)], rowOf sgIdle []]\<rparr> \<and>
   (\<exists>facts rows.
      runSecurityGroupQuery (demoDb [sgIdle, sgWeb, sgDb]) = Inr facts \<and>
      analyzeSecurityGroupResults facts [22, 80, 443] = Inr rows \<and>
      SliceStable sortRowsLess rows =
        Inr [rowOf sgDb [], rowOf sgWeb [(20, 21), (23, 25)], rowOf sgIdle []]) \<and>
   unsafePorts sgWeb [22, 80, 443] = Inr [(20, 21), (23, 25)]"
proof -
  have g: "Generate (demoDb [sgIdle, sgWeb, sgDb]) (Some [22, 80, 443]) =
     Returns \<lparr>Metadata = \<lparr>Imported = 5, Generated = 7, Account = ''42'',
                            Organization = ''<NONE>''\<rparr>,
              Rows = [rowOf sgDb [], rowOf sgWeb [(20, 21), (23, 25)], rowOf sgIdle []]\<rparr>"
    using C8_default_safe_ports [of "demoDb [sgIdle, sgWeb, sgDb]"] example_generate by simp
  have u: "unsafePorts sgWeb [22, 80, 443] = Inr [(20, 21), (23, 25)]" by code_simp
  have "\<exists>facts rows.
      runSecurityGroupQuery (demoDb [sgIdle, sgWeb, sgDb]) = Inr facts \<and>
      analyzeSecurityGroupResults facts [22, 80, 443] = Inr rows \<and>
      SliceStable sortRowsLess rows =
        Inr [rowOf sgDb [], rowOf sgWeb [(20, 21), (23, 25)], rowOf sgIdle []]"
    using g C8_default_safe_ports [of "demoDb [sgIdle, sgWeb, sgDb]" "[22, 80, 443]"
        "\<lparr>Metadata = \<lparr>Imported = 5, Generated = 7, Account = ''42'',
                              Organization = ''<NONE>''\<rparr>,
          Rows = [rowOf sgDb [], rowOf sgWeb [(20, 21), (23, 25)], rowOf sgIdle []]\<rparr>"]
    by auto
  then show ?thesis using g u by blast
qed

text \<open>
  C9: the account ID of a returned report is field 4 of the ARN of the first row of
  the returned, sorted rows, a row of the lowest severity rank among them.
\<close>

theorem C9_account_from_first_sorted_row:
  assumes "Generate db sp = Returns rep"
  shows "Rows rep \<noteq> [] \<and>
         4 < length (arnFields (Arn (Rows rep ! 0))) \<and>
         Account (Metadata rep) = arnFields (Arn (Rows rep ! 0)) ! 4 \<and>
         (\<exists>facts rows.
            runSecurityGroupQuery db = Inr facts \<and>
            analyzeSecurityGroupResults facts (effectiveSafePorts sp) = Inr rows \<and>
            SliceStable sortRowsLess rows = Inr (Rows rep)) \<and>
         (\<forall>r \<in> set (Rows rep). statusRank (Status (Rows rep ! 0)) \<le> statusRank (Status r))"
proof -
  from Generate_Returns [OF assms] obtain facts rows where
    facts: "runSecurityGroupQuery db = Inr facts"
    and rows: "analyzeSecurityGroupResults facts (effectiveSafePorts sp) = Inr rows"
    and srt: "SliceStable sortRowsLess rows = Inr (Rows rep)"
    and md: "loadMetadata db (Rows rep) = Returns (Metadata rep)"
    by blast
  note first = loadMetadata_Returns [OF md]
  have "sorted (map (\<lambda>r. statusRank (Status r)) (Rows rep))"
    using srt by (rule SliceStable_rank)
  then have "\<forall>r \<in> set (Rows rep). statusRank (Status (Rows rep ! 0)) \<le> statusRank (Status r)"
    using first by (cases "Rows rep") auto
  then show ?thesis using first facts rows srt by blast
qed

theorem C9_account_from_first_sorted_row_witness:
  "Generate (demoDb [sgIdle, sgWeb, sgDb]) None =
     Returns \<lparr>Metadata = \<lparr>Imported = 5, Generated = 7, Account = ''42'',
                            Organization = ''<NONE>''\<rparr>,
              Rows = [rowOf sgDb [], rowOf sgWeb [(20, 21), (23, 25)], rowOf sgIdle []]\<rparr> \<and>
   ''42'' = arnFields (Arn (rowOf sgDb [])) ! 4"
  using C9_account_from_first_sorted_row [OF example_generate] example_generate
  by simp

text \<open>
  C10: the i-th row before sorting is derived from the i-th fact, and its Arn, Name,
  PublicIps, InUse and IsDefault are the fact's arn, groupName, ips, inUse and isDefault;
  only Status and Notes are computed.
\<close>

theorem C10_pass_through_fields:
  assumes "analyzeSecurityGroupResults facts ps = Inr rows"
  shows "length rows = length facts \<and>
    (\<forall>i < length facts.
       Arn (rows ! i) = arn (facts ! i) \<and> Name (rows ! i) = groupName (facts ! i) \<and>
       PublicIps (rows ! i) = ips (facts ! i) \<and> InUse (rows ! i) = inUse (facts ! i) \<and>
       IsDefault (rows ! i) = isDefault (facts ! i) \<and>
       (\<exists>u. unsafePorts (facts ! i) ps = Inr u \<and> rows ! i = rowOf (facts ! i) u))"
proof (intro conjI allI impI)
  show "length rows = length facts" using assms by (rule analyze_length)
next
  fix i assume i: "i < length facts"
  from analyze_nth(2) [OF assms i] obtain u where
    u: "unsafePorts (facts ! i) ps = Inr u" and row: "rows ! i = rowOf (facts ! i) u"
    by blast
  show "Arn (rows ! i) = arn (facts ! i)" by (simp add: row rowOf_def)
  show "Name (rows ! i) = groupName (facts ! i)" by (simp add: row rowOf_def)
  show "PublicIps (rows ! i) = ips (facts ! i)" by (simp add: row rowOf_def)
  show "InUse (rows ! i) = inUse (facts ! i)" by (simp add: row rowOf_def)
  show "IsDefault (rows ! i) = isDefault (facts ! i)" by (simp add: row rowOf_def)
  show "\<exists>u. unsafePorts (facts ! i) ps = Inr u \<and> rows ! i = rowOf (facts ! i) u"
    using u row by blast
qed

theorem C10_pass_through_fields_witness:
  "analyzeSecurityGroupResults [sgWeb, sgIdle] [22] =
     Inr [rowOf sgWeb [(20, 21), (23, 25)], rowOf sgIdle []] \<and>
   length [rowOf sgWeb [(20, 21), (23, 25)], rowOf sgIdle []] = length [sgWeb, sgIdle] \<and>
   Arn ([rowOf sgWeb [(20, 21), (23, 25)], rowOf sgIdle []] ! 1) = arn ([sgWeb, sgIdle] ! 1) \<and>
   Name ([rowOf sgWeb [(20, 21), (23, 25)], rowOf sgIdle []] ! 1) = groupName ([sgWeb, sgIdle] ! 1)"
proof -
  have i: "(1 :: nat) < length [sgWeb, sgIdle]" by simp
  show ?thesis
    using example_rows i C10_pass_through_fields [OF example_rows] by blast
qed

end
